theory Spec2Isabelle
  imports Main "HOL-Library.AList"
begin

section \<open>Data model of \<^verbatim>\<open>xml_ingestion_template.py\<close>\<close>

text \<open>
  An \<^verbatim>\<open>ET.Element\<close>: its tag, its attribute dictionary (an association list in
  insertion order), its text (\<^verbatim>\<open>None\<close> when absent) and its direct children in
  document order. The tail is never read by the module and is left out.
\<close>

datatype element =
  Element (tag: string) (attrib: "(string \<times> string) list")
          (elem_text: "string option") (children: "element list")

text \<open>The dataclass \<^verbatim>\<open>XMLIngestionConfig\<close>, field by field.\<close>

record XMLIngestionConfig =
  batch_size :: int
  record_tag :: string
  namespaces :: "(string \<times> string) list option"
  validate_schema :: bool
  schema_path :: "string option"
  encoding :: string
  strip_whitespace :: bool

definition default_config :: XMLIngestionConfig where
  "default_config =
     \<lparr>batch_size = 1000, record_tag = ''record'', namespaces = None,
      validate_schema = False, schema_path = None, encoding = ''utf-8'',
      strip_whitespace = True\<rparr>"

text \<open>
  The exceptions (subclasses of \<^verbatim>\<open>Exception\<close>) that the module raises, catches or
  lets through, each with its message (\<^verbatim>\<open>str(e)\<close>); a constructor stands for
  the class and its subclasses, which an \<^verbatim>\<open>except\<close> clause catches alike.
  \<open>ParseError\<close> is \<^verbatim>\<open>ET.ParseError\<close>. \<open>StopIteration\<close> and \<open>RuntimeError\<close> are there for the
  rule of Python's generators (below); \<open>OtherException\<close> stands for every class
  that neither the module nor that rule names (\<^verbatim>\<open>OSError\<close>, \<^verbatim>\<open>KeyError\<close>, a
  caller's own class, ...).
\<close>

datatype exn =
    XMLIngestionError string
  | ParseError string
  | ValueError string
  | AttributeError string
  | TypeError string
  | StopIteration string
  | RuntimeError string
  | OtherException string

fun exn_str :: "exn \<Rightarrow> string" where
  "exn_str (XMLIngestionError m) = m"
| "exn_str (ParseError m) = m"
| "exn_str (ValueError m) = m"
| "exn_str (AttributeError m) = m"
| "exn_str (TypeError m) = m"
| "exn_str (StopIteration m) = m"
| "exn_str (RuntimeError m) = m"
| "exn_str (OtherException m) = m"

text \<open>
  A Record is a Python \<^verbatim>\<open>dict\<close> from field name to either one string or a list of
  strings. The dictionary keeps insertion order, so it is an association list with
  distinct keys: \<open>AList.update\<close> overwrites a present key in place and appends a new
  one, as assignment to \<^verbatim>\<open>result[tag]\<close> does.
\<close>

datatype field = Scalar string | Sequence "string list"

type_synonym Record = "(string \<times> field) list"

section \<open>Strings\<close>

text \<open>
  A string is a list of characters, each a code point from 0 to 255; text with code
  points beyond that range is outside the model. \<^verbatim>\<open>str.strip()\<close> removes leading
  and trailing whitespace. On this range the characters that Python takes for
  whitespace are the controls 9 to 13, the separators 28 to 31, the space, the next-line
  control \<open>0x85\<close> and the no-break space \<open>0xA0\<close>.
\<close>

definition py_isspace :: "char \<Rightarrow> bool" where
  "py_isspace c \<longleftrightarrow>
     c \<in> set [CHR 0x09, CHR 0x0A, CHR 0x0B, CHR 0x0C, CHR 0x0D,
              CHR 0x1C, CHR 0x1D, CHR 0x1E, CHR 0x1F, CHR 0x20,
              CHR 0x85, CHR 0xA0]"

definition py_strip :: "string \<Rightarrow> string" where
  "py_strip s = rev (dropWhile py_isspace (rev (dropWhile py_isspace s)))"

text \<open>
  \<^verbatim>\<open>str.lower()\<close> on this range: the letters A to Z, and the accented capitals
  \<open>0xC0\<close> to \<open>0xDE\<close> (the multiplication sign \<open>0xD7\<close> apart), each move to the
  small letter 32 places further on; every other character stays.
\<close>

definition upper_letters :: "char list" where
  "upper_letters =
     ''ABCDEFGHIJKLMNOPQRSTUVWXYZ'' @
     [CHR 0xC0, CHR 0xC1, CHR 0xC2, CHR 0xC3, CHR 0xC4, CHR 0xC5, CHR 0xC6,
      CHR 0xC7, CHR 0xC8, CHR 0xC9, CHR 0xCA, CHR 0xCB, CHR 0xCC, CHR 0xCD,
      CHR 0xCE, CHR 0xCF, CHR 0xD0, CHR 0xD1, CHR 0xD2, CHR 0xD3, CHR 0xD4,
      CHR 0xD5, CHR 0xD6, CHR 0xD8, CHR 0xD9, CHR 0xDA, CHR 0xDB, CHR 0xDC,
      CHR 0xDD, CHR 0xDE]"

definition lower_letters :: "char list" where
  "lower_letters =
     ''abcdefghijklmnopqrstuvwxyz'' @
     [CHR 0xE0, CHR 0xE1, CHR 0xE2, CHR 0xE3, CHR 0xE4, CHR 0xE5, CHR 0xE6,
      CHR 0xE7, CHR 0xE8, CHR 0xE9, CHR 0xEA, CHR 0xEB, CHR 0xEC, CHR 0xED,
      CHR 0xEE, CHR 0xEF, CHR 0xF0, CHR 0xF1, CHR 0xF2, CHR 0xF3, CHR 0xF4,
      CHR 0xF5, CHR 0xF6, CHR 0xF8, CHR 0xF9, CHR 0xFA, CHR 0xFB, CHR 0xFC,
      CHR 0xFD, CHR 0xFE]"

definition py_lower_char :: "char \<Rightarrow> char" where
  "py_lower_char c =
     (case map_of (zip upper_letters lower_letters) c of
        Some d \<Rightarrow> d
      | None \<Rightarrow> c)"

definition py_lower :: "string \<Rightarrow> string" where
  "py_lower s = map py_lower_char s"

text \<open>
  \<^verbatim>\<open>s.split(sep)\<close> for a one-character separator: the pieces between the
  occurrences of the separator, never an empty list.
\<close>

fun py_split :: "char \<Rightarrow> string \<Rightarrow> string list" where
  "py_split sep [] = [[]]"
| "py_split sep (c # cs) =
     (if c = sep then [] # py_split sep cs
      else (case py_split sep cs of
              w # ws \<Rightarrow> (c # w) # ws
            | [] \<Rightarrow> [[c]]))"

section \<open>Type coercion: \<^verbatim>\<open>_convert_type\<close>\<close>

text \<open>
  Python values that the helper returns: the default is any value, a conversion gives a
  bool, an int, a float, a string or whatever a custom target type builds. Floats are
  kept abstract (\<open>'f\<close>), as are the objects of custom types (\<open>'o\<close>).
\<close>

datatype ('f, 'o) pyval =
    PNone
  | PBool bool
  | PInt int
  | PFloat 'f
  | PStr string
  | PObj 'o

text \<open>
  The target type is compared with \<^verbatim>\<open>bool\<close>, \<^verbatim>\<open>int\<close>, \<^verbatim>\<open>float\<close> and
  \<^verbatim>\<open>str\<close> in that order; anything else is called on the value and may raise any
  exception.
\<close>

datatype ('f, 'o) target_type =
    TBool
  | TInt
  | TFloat
  | TStr
  | TOther "string \<Rightarrow> exn + ('f, 'o) pyval"

text \<open>
  The builtins \<^verbatim>\<open>int(value)\<close> and \<^verbatim>\<open>float(value)\<close> on a string are parameters
  of the model: each either returns the parsed number or raises \<^verbatim>\<open>ValueError\<close>
  (\<open>None\<close>), the only exception Python raises from them on a \<^verbatim>\<open>str\<close> argument.
\<close>

record 'f builtins =
  py_int :: "string \<Rightarrow> int option"
  py_float :: "string \<Rightarrow> 'f option"

text \<open>The body of the \<^verbatim>\<open>try\<close> block: the conversion, or the exception it raises.\<close>

definition convert_body ::
  "'f builtins \<Rightarrow> string \<Rightarrow> ('f, 'o) target_type \<Rightarrow> exn + ('f, 'o) pyval" where
  "convert_body bi v target =
     (case target of
        TBool \<Rightarrow> Inr (PBool (py_lower v \<in> set [''true'', ''1'', ''yes'', ''on'']))
      | TInt \<Rightarrow>
          (case py_int bi v of
             Some n \<Rightarrow> Inr (PInt n)
           | None \<Rightarrow> Inl (ValueError ''invalid literal for int()''))
      | TFloat \<Rightarrow>
          (case py_float bi v of
             Some x \<Rightarrow> Inr (PFloat x)
           | None \<Rightarrow> Inl (ValueError ''could not convert string to float''))
      | TStr \<Rightarrow> Inr (PStr v)
      | TOther ctor \<Rightarrow> ctor v)"

text \<open>
  \<^verbatim>\<open>except (ValueError, AttributeError, TypeError)\<close>: these three classes are
  caught, every other exception passes through.
\<close>

fun caught_by_convert :: "exn \<Rightarrow> bool" where
  "caught_by_convert (ValueError m) = True"
| "caught_by_convert (AttributeError m) = True"
| "caught_by_convert (TypeError m) = True"
| "caught_by_convert e = False"

text \<open>
  \<^verbatim>\<open>_convert_type(value, target_type, default)\<close>. The value is \<^verbatim>\<open>None\<close> or a
  string. \<open>Inl\<close> is an exception that reaches the caller.
\<close>

definition convert_type ::
  "'f builtins \<Rightarrow> string option \<Rightarrow> ('f, 'o) target_type \<Rightarrow> ('f, 'o) pyval
     \<Rightarrow> exn + ('f, 'o) pyval" where
  "convert_type bi val target dflt =
     (case val of
        None \<Rightarrow> Inr dflt
      | Some v \<Rightarrow>
          if py_strip v = [] then Inr dflt
          else (case convert_body bi v target of
                  Inr r \<Rightarrow> Inr r
                | Inl e \<Rightarrow> if caught_by_convert e then Inr dflt else Inl e))"

text \<open>A string is all-whitespace (or empty) when every character is whitespace.\<close>

definition all_whitespace :: "string \<Rightarrow> bool" where
  "all_whitespace s = list_all py_isspace s"

section \<open>Record extraction: \<^verbatim>\<open>_safe_get_text\<close> and \<^verbatim>\<open>_element_to_dict\<close>\<close>

text \<open>
  \<^verbatim>\<open>element.text or default\<close> takes the default for an absent and for an empty
  text; the result is stripped when the configuration says so.
\<close>

definition safe_get_text :: "XMLIngestionConfig \<Rightarrow> element \<Rightarrow> string \<Rightarrow> string" where
  "safe_get_text cfg element dflt =
     (let t = (case elem_text element of
                 None \<Rightarrow> dflt
               | Some s \<Rightarrow> if s = [] then dflt else s)
      in if strip_whitespace cfg then py_strip t else t)"

text \<open>
  \<^verbatim>\<open>if '}' in tag: tag = tag.split('}')[1]\<close>: the piece between the first and the
  second closing brace (to the end when there is one brace only). The index 1 exists
  whenever the tag has a brace (lemma \<open>py_split_length\<close> below).
\<close>

definition strip_namespace :: "string \<Rightarrow> string" where
  "strip_namespace t =
     (if CHR ''}'' \<in> set t then py_split (CHR ''}'') t ! 1 else t)"

text \<open>
  One turn of the loop over the children: the key is looked up, a scalar that is
  already there is wrapped into a list before the append, a list is appended to, a new
  key is assigned the text.
\<close>

definition add_child :: "XMLIngestionConfig \<Rightarrow> Record \<Rightarrow> element \<Rightarrow> Record" where
  "add_child cfg result child =
     (let t = strip_namespace (tag child);
          v = safe_get_text cfg child []
      in case map_of result t of
           Some (Sequence vs) \<Rightarrow> AList.update t (Sequence (vs @ [v])) result
         | Some (Scalar s) \<Rightarrow> AList.update t (Sequence ([s] @ [v])) result
         | None \<Rightarrow> AList.update t (Scalar v) result)"

text \<open>\<^verbatim>\<open>result.update(element.attrib)\<close> on the empty dictionary.\<close>

definition seed_attributes :: "(string \<times> string) list \<Rightarrow> Record" where
  "seed_attributes attrs = foldl (\<lambda>r (k, v). AList.update k (Scalar v) r) [] attrs"

definition element_to_dict :: "XMLIngestionConfig \<Rightarrow> element \<Rightarrow> Record" where
  "element_to_dict cfg element =
     foldl (add_child cfg) (seed_attributes (attrib element)) (children element)"

section \<open>Streaming reader: \<^verbatim>\<open>stream_records\<close>\<close>

text \<open>
  \<^verbatim>\<open>elem.clear()\<close> drops the attributes, the text and the children and keeps the
  tag.
\<close>

fun clear :: "element \<Rightarrow> element" where
  "clear (Element t a tx cs) = Element t [] None []"

text \<open>
  \<^verbatim>\<open>ET.iterparse(xml_source, events=('end',))\<close> delivers every element when its end
  tag is read: the children before their parent, siblings in document order. The loop
  of \<open>stream_records\<close> yields an element whose tag is the record tag and clears it
  when the consumer asks for the next one, so a parent met later holds its cleared
  record children. \<open>stream_subtree\<close> runs the loop over one subtree: the elements
  yielded, each as the consumer sees it, and the subtree as the loop leaves it.
\<close>

fun stream_subtree :: "string \<Rightarrow> element \<Rightarrow> element list \<times> element"
  and stream_forest :: "string \<Rightarrow> element list \<Rightarrow> element list \<times> element list" where
  "stream_subtree rt (Element t a tx cs) =
     (let r = stream_forest rt cs;
          elem = Element t a tx (snd r)
      in if t = rt then (fst r @ [elem], clear elem) else (fst r, elem))"
| "stream_forest rt [] = ([], [])"
| "stream_forest rt (c # cs) =
     (let r = stream_subtree rt c;
          rs = stream_forest rt cs
      in (fst r @ fst rs, snd r # snd rs))"

text \<open>
  What the parser makes of a source. \<open>Document root\<close> is a well-formed document.
  \<open>Interrupted done e\<close> is a source on which parsing stops with the exception \<open>e\<close>:
  \<^verbatim>\<open>ET.ParseError\<close> for a malformed or truncated document, any other exception for
  a source that cannot be opened or read; \<open>done\<close> are the subtrees completed before
  that point, whose end events are delivered first.
\<close>

datatype xml_source =
    Document element
  | Interrupted "element list" exn

text \<open>
  A generator run to its end: the values yielded, then \<open>None\<close> for a normal end or
  the exception raised.
\<close>

type_synonym 'a generator = "'a list \<times> exn option"

text \<open>
  An exception that leaves the body of a generator function reaches the caller as it
  is, except \<^verbatim>\<open>StopIteration\<close>: Python replaces it by
  \<^verbatim>\<open>RuntimeError('generator raised StopIteration')\<close>.
\<close>

fun generator_raise :: "exn \<Rightarrow> exn" where
  "generator_raise (StopIteration m) = RuntimeError ''generator raised StopIteration''"
| "generator_raise e = e"

text \<open>The \<^verbatim>\<open>try\<close> block of \<open>stream_records\<close>, without its handlers.\<close>

definition stream_body :: "XMLIngestionConfig \<Rightarrow> xml_source \<Rightarrow> element generator" where
  "stream_body cfg src =
     (case src of
        Document root \<Rightarrow> (fst (stream_subtree (record_tag cfg) root), None)
      | Interrupted done e \<Rightarrow> (fst (stream_forest (record_tag cfg) done), Some e))"

text \<open>
  The two handlers, in the order of the source: \<^verbatim>\<open>except ET.ParseError\<close>, then
  \<^verbatim>\<open>except Exception\<close>.
\<close>

fun stream_handler :: "exn \<Rightarrow> exn" where
  "stream_handler (ParseError m) = XMLIngestionError (''XML parsing error: '' @ m)"
| "stream_handler e =
     XMLIngestionError (''Unexpected error during streaming: '' @ exn_str e)"

text \<open>
  \<open>stream_records\<close> is a generator function; what leaves its body is the
  \<open>XMLIngestionError\<close> that a handler raises.
\<close>

definition stream_records :: "XMLIngestionConfig \<Rightarrow> xml_source \<Rightarrow> element generator" where
  "stream_records cfg src =
     (case stream_body cfg src of
        (elems, None) \<Rightarrow> (elems, None)
      | (elems, Some e) \<Rightarrow> (elems, Some (generator_raise (stream_handler e))))"

section \<open>Batcher: \<^verbatim>\<open>ingest_batch\<close>\<close>

text \<open>
  The loop of \<open>ingest_batch\<close> over the streamed elements, with the working buffer
  \<open>batch\<close>: the batches yielded, the exception of the transform if it raises (the
  loop stops there), and the buffer at the end.
\<close>

fun batch_loop ::
  "int \<Rightarrow> (element \<Rightarrow> exn + Record) \<Rightarrow> element list \<Rightarrow> Record list
     \<Rightarrow> Record list list \<times> exn option \<times> Record list" where
  "batch_loop bsz f [] batch = ([], None, batch)"
| "batch_loop bsz f (elem # rest) batch =
     (case f elem of
        Inl e \<Rightarrow> ([], Some e, batch)
      | Inr record \<Rightarrow>
          (let batch' = batch @ [record]
           in if int (length batch') \<ge> bsz
              then (case batch_loop bsz f rest [] of (bs, r) \<Rightarrow> (batch' # bs, r))
              else batch_loop bsz f rest batch'))"

text \<open>
  \<^verbatim>\<open>transform_func(elem) if transform_func else self._element_to_dict(elem)\<close>. A
  caller's transform may raise; the default extractor does not.
\<close>

definition apply_transform ::
  "XMLIngestionConfig \<Rightarrow> (element \<Rightarrow> exn + Record) option \<Rightarrow> element \<Rightarrow> exn + Record" where
  "apply_transform cfg transform_func elem =
     (case transform_func of
        Some g \<Rightarrow> g elem
      | None \<Rightarrow> Inr (element_to_dict cfg elem))"

text \<open>
  \<open>ingest_batch\<close> as a generator run to its end. The elements are pulled one at a
  time, so an exception of the transform comes before a failure of the stream that
  lies further on; a failure of the stream ends the loop before the final flush. The
  function has no handler: either exception leaves its body, under the rule of
  generators.
\<close>

definition ingest_batch ::
  "XMLIngestionConfig \<Rightarrow> xml_source \<Rightarrow> (element \<Rightarrow> exn + Record) option
     \<Rightarrow> Record list generator" where
  "ingest_batch cfg src transform_func =
     (case stream_records cfg src of
        (elems, stream_exn) \<Rightarrow>
          (case batch_loop (batch_size cfg) (apply_transform cfg transform_func) elems [] of
             (bs, Some e, batch) \<Rightarrow> (bs, Some (generator_raise e))
           | (bs, None, batch) \<Rightarrow>
               (case stream_exn of
                  Some e \<Rightarrow> (bs, Some (generator_raise e))
                | None \<Rightarrow> (if batch \<noteq> [] then bs @ [batch] else bs, None))))"

section \<open>Schema validation and table assembly\<close>

text \<open>
  What the optional library does for the configured schema and the document:
  \<^verbatim>\<open>from lxml import etree\<close> raises \<^verbatim>\<open>ImportError\<close>, or \<^verbatim>\<open>schema.validate\<close>
  returns true or false, or one of the calls raises another exception.
\<close>

datatype lxml = LxmlMissing | LxmlValid | LxmlInvalid | LxmlRaises exn

text \<open>\<^verbatim>\<open>not self.config.schema_path\<close>: \<^verbatim>\<open>None\<close> and the empty string are falsy.\<close>

definition truthy :: "string option \<Rightarrow> bool" where
  "truthy p = (case p of None \<Rightarrow> False | Some s \<Rightarrow> s \<noteq> [])"

definition validate_xml :: "XMLIngestionConfig \<Rightarrow> lxml \<Rightarrow> exn + bool" where
  "validate_xml cfg lx =
     (if \<not> validate_schema cfg \<or> \<not> truthy (schema_path cfg) then Inr True
      else (case lx of
              LxmlValid \<Rightarrow> Inr True
            | LxmlInvalid \<Rightarrow> Inr False
            | LxmlMissing \<Rightarrow> Inr True
            | LxmlRaises e \<Rightarrow> Inl (XMLIngestionError (''Validation error: '' @ exn_str e))))"

text \<open>
  The part of \<open>ingest_to_dataframe\<close> after the validation gate: all batches are
  appended to \<^verbatim>\<open>all_records\<close>; the Table is the list of rows handed to
  \<^verbatim>\<open>pd.DataFrame\<close>.
\<close>

definition collect_batches :: "Record list generator \<Rightarrow> exn + Record list" where
  "collect_batches g =
     (case g of
        (bs, Some e) \<Rightarrow> Inl e
      | (bs, None) \<Rightarrow> Inr (concat bs))"

definition ingest_to_dataframe ::
  "XMLIngestionConfig \<Rightarrow> lxml \<Rightarrow> xml_source \<Rightarrow> (element \<Rightarrow> exn + Record) option
     \<Rightarrow> exn + Record list" where
  "ingest_to_dataframe cfg lx src transform_func =
     (if validate_schema cfg then
        (case validate_xml cfg lx of
           Inl e \<Rightarrow> Inl e
         | Inr ok \<Rightarrow>
             if \<not> ok then Inl (XMLIngestionError ''XML validation failed'')
             else collect_batches (ingest_batch cfg src transform_func))
      else collect_batches (ingest_batch cfg src transform_func))"

section \<open>Notions of the specification\<close>

text \<open>The number of elements of a document whose tag equals the record tag.\<close>

fun count_tag :: "string \<Rightarrow> element \<Rightarrow> nat" where
  "count_tag rt (Element t a tx cs) =
     (if t = rt then 1 else 0) + sum_list (map (count_tag rt) cs)"

text \<open>
  The number of record-tag elements that the parser completes on a source: all of a
  well-formed document, those of the finished subtrees otherwise.
\<close>

definition count_source :: "string \<Rightarrow> xml_source \<Rightarrow> nat" where
  "count_source rt src =
     (case src of
        Document root \<Rightarrow> count_tag rt root
      | Interrupted done e \<Rightarrow> sum_list (map (count_tag rt) done))"

text \<open>
  The local name of a tag as the specification words it: everything up to and
  including the namespace delimiter is dropped; a tag without a delimiter is its own
  local name.
\<close>

definition local_name :: "string \<Rightarrow> string" where
  "local_name t =
     (if CHR ''}'' \<in> set t then tl (dropWhile (\<lambda>c. c \<noteq> CHR ''}'') t) else t)"

text \<open>
  A tag as the parser writes it: a plain name, or \<^verbatim>\<open>{uri}local\<close> with the one
  closing brace that ends the namespace. (The parser rejects a namespace whose name
  holds the delimiter, and an XML name holds no brace.)
\<close>

definition parser_tag :: "string \<Rightarrow> bool" where
  "parser_tag t \<longleftrightarrow> length (filter (\<lambda>c. c = CHR ''}'') t) \<le> 1"

text \<open>
  The rule of the specification for one child: a name that is not yet a key gets the
  scalar text, a scalar is promoted to a sequence of two, a sequence is appended to.
\<close>

fun merge_value :: "field option \<Rightarrow> string \<Rightarrow> field" where
  "merge_value None v = Scalar v"
| "merge_value (Some (Scalar s)) v = Sequence [s, v]"
| "merge_value (Some (Sequence vs)) v = Sequence (vs @ [v])"

text \<open>
  The Record extractor as the specification words it, on the Record as a finite map:
  seeded with every attribute, then one \<open>merge_value\<close> for each direct child in
  document order, under the child's local name.
\<close>

definition spec_step ::
  "XMLIngestionConfig \<Rightarrow> (string \<rightharpoonup> field) \<Rightarrow> element \<Rightarrow> (string \<rightharpoonup> field)" where
  "spec_step cfg m child =
     m(local_name (tag child) \<mapsto>
         merge_value (m (local_name (tag child))) (safe_get_text cfg child []))"

definition spec_extract :: "XMLIngestionConfig \<Rightarrow> element \<Rightarrow> (string \<rightharpoonup> field)" where
  "spec_extract cfg e =
     foldl (spec_step cfg) (map_option Scalar \<circ> map_of (attrib e)) (children e)"

text \<open>
  What a Record holds in the end under a key \<open>k\<close>: the values written under
  \<open>k\<close> in order, the attribute of that name first, then the text of every child
  whose local name is \<open>k\<close>; one value is a scalar, several are a sequence.
\<close>

definition contributions :: "XMLIngestionConfig \<Rightarrow> element \<Rightarrow> string \<Rightarrow> string list" where
  "contributions cfg e k =
     (case map_of (attrib e) k of None \<Rightarrow> [] | Some a \<Rightarrow> [a])
     @ map (\<lambda>c. safe_get_text cfg c []) (filter (\<lambda>c. local_name (tag c) = k) (children e))"

fun field_of :: "string list \<Rightarrow> field option" where
  "field_of [] = None"
| "field_of [v] = Some (Scalar v)"
| "field_of vs = Some (Sequence vs)"

section \<open>Sample inputs\<close>

text \<open>
  A document of five records under one root and a configuration with batches of two,
  the batching scenario of the specification.
\<close>

definition sample_record :: "string \<Rightarrow> element" where
  "sample_record i =
     Element ''record'' [(''id'', i)] None
       [Element ''name'' [] (Some ('' item '' @ i)) [], Element ''price'' [] None []]"

definition sample_document :: element where
  "sample_document =
     Element ''root'' [] None
       [sample_record ''1'', sample_record ''2'', sample_record ''3'',
        sample_record ''4'', sample_record ''5'']"

definition sample_config :: XMLIngestionConfig where
  "sample_config = default_config\<lparr>batch_size := 2\<rparr>"

text \<open>
  A document without any record element; a configuration that validates against a
  schema and one that asks for validation and names no schema; two transforms that
  raise on the fourth sample record, one a \<^verbatim>\<open>ValueError\<close> and one a
  \<^verbatim>\<open>StopIteration\<close>; an element with a repeated child tag, plain and with
  namespaces; an element whose child text is padded with a no-break space, a
  next-line control and a space.
\<close>

definition no_record_document :: element where
  "no_record_document =
     Element ''root'' [(''version'', ''1'')] None
       [Element ''item'' [] (Some ''x'') [], Element ''item'' [] (Some ''y'') []]"

definition validating_config :: XMLIngestionConfig where
  "validating_config = sample_config\<lparr>validate_schema := True, schema_path := Some ''schema.xsd''\<rparr>"

definition schemaless_config :: XMLIngestionConfig where
  "schemaless_config = sample_config\<lparr>validate_schema := True\<rparr>"

definition failing_transform :: "element \<Rightarrow> exn + Record" where
  "failing_transform elem =
     (if attrib elem = [(''id'', ''4'')] then Inl (ValueError ''could not convert'')
      else Inr [(''id'', Scalar (the (map_of (attrib elem) ''id'')))])"

definition padded_text_element :: element where
  "padded_text_element =
     Element ''item'' [] None
       [Element ''a'' [] (Some [CHR 0xA0, CHR ''x'', CHR 0x85, CHR 0x20]) []]"

definition stopping_transform :: "element \<Rightarrow> exn + Record" where
  "stopping_transform elem =
     (if attrib elem = [(''id'', ''4'')] then Inl (StopIteration ''stop'')
      else Inr [(''id'', Scalar (the (map_of (attrib elem) ''id'')))])"

definition duplicate_tags_element :: element where
  "duplicate_tags_element =
     Element ''item'' [] None
       [Element ''tag'' [] (Some ''a'') [], Element ''tag'' [] (Some ''b'') []]"

definition namespaced_element :: element where
  "namespaced_element =
     Element ''{http://example.com/schema}item'' [(''id'', ''7'')] None
       [Element ''{http://example.com/schema}tag'' [] (Some '' a '') [],
        Element ''{http://example.com/schema}id'' [] (Some ''8'') [],
        Element ''{http://example.com/schema}tag'' [] None [],
        Element ''tag'' [] (Some ''c'') []]"

section \<open>Properties of the coercion helper\<close>

lemma dropWhile_rev_dropWhile_Nil:
  "dropWhile P (rev (dropWhile P s)) = [] \<longleftrightarrow> dropWhile P s = []"
proof
  assume a: "dropWhile P (rev (dropWhile P s)) = []"
  show "dropWhile P s = []"
  proof (rule ccontr)
    assume n: "dropWhile P s \<noteq> []"
    then have "\<not> P (hd (dropWhile P s))" by (rule hd_dropWhile)
    moreover have "hd (dropWhile P s) \<in> set (rev (dropWhile P s))" using n by simp
    moreover have "\<forall>x \<in> set (rev (dropWhile P s)). P x"
      using a by (simp only: dropWhile_eq_Nil_conv)
    ultimately show False by blast
  qed
next
  assume "dropWhile P s = []"
  then show "dropWhile P (rev (dropWhile P s)) = []"
    by (simp del: dropWhile_eq_Nil_conv)
qed

lemma py_strip_empty_iff: "py_strip s = [] \<longleftrightarrow> all_whitespace s"
proof -
  have "py_strip s = [] \<longleftrightarrow> dropWhile py_isspace (rev (dropWhile py_isspace s)) = []"
    by (simp add: py_strip_def)
  also have "\<dots> \<longleftrightarrow> dropWhile py_isspace s = []"
    by (rule dropWhile_rev_dropWhile_Nil)
  also have "\<dots> \<longleftrightarrow> all_whitespace s"
    by (simp add: all_whitespace_def list_all_iff)
  finally show ?thesis .
qed



text \<open>
  C5. For a non-empty string, coercion to the integer or the decimal kind returns the
  parsed number when the builtin parses it and the caller's default when the builtin
  raises \<^verbatim>\<open>ValueError\<close>; no exception reaches the caller. (Python's \<^verbatim>\<open>int\<close>
  and \<^verbatim>\<open>float\<close> reject a string of whitespace only, which is the hypothesis on
  the builtins.)
\<close>

theorem convert_type_numeric_never_raises:
  assumes "v \<noteq> []"
    and "\<forall>s. all_whitespace s \<longrightarrow> py_int bi s = None \<and> py_float bi s = None"
  shows "convert_type bi (Some v) TInt dflt =
           (case py_int bi v of Some n \<Rightarrow> Inr (PInt n) | None \<Rightarrow> Inr dflt)
       \<and> convert_type bi (Some v) TFloat dflt =
           (case py_float bi v of Some x \<Rightarrow> Inr (PFloat x) | None \<Rightarrow> Inr dflt)
       \<and> (\<forall>e. convert_type bi (Some v) TInt dflt \<noteq> Inl e)
       \<and> (\<forall>e. convert_type bi (Some v) TFloat dflt \<noteq> Inl e)"
proof (cases "all_whitespace v")
  case True
  with assms(2) have "py_int bi v = None" "py_float bi v = None" by auto
  with True show ?thesis
    by (simp add: convert_type_def py_strip_empty_iff)
next
  case False
  then show ?thesis
    by (simp add: convert_type_def convert_body_def py_strip_empty_iff
        split: option.splits)
qed

theorem convert_type_numeric_never_raises_witness:
  "convert_type
     \<lparr>py_int = (\<lambda>s. if s = ''42'' then Some 42 else None),
      py_float = (\<lambda>s. (None :: unit option))\<rparr>
     (Some ''42'') TInt (PInt 0 :: (unit, unit) pyval) = Inr (PInt 42)
   \<and> convert_type
     \<lparr>py_int = (\<lambda>s. if s = ''42'' then Some 42 else None),
      py_float = (\<lambda>s. (None :: unit option))\<rparr>
     (Some ''4x'') TInt (PInt 0 :: (unit, unit) pyval) = Inr (PInt 0)
   \<and> convert_type
     \<lparr>py_int = (\<lambda>s. if s = ''42'' then Some 42 else None),
      py_float = (\<lambda>s. (None :: unit option))\<rparr>
     (Some ''4x'') TFloat (PNone :: (unit, unit) pyval) = Inr PNone"
proof -
  let ?bi = "\<lparr>py_int = (\<lambda>s. if s = ''42'' then Some 42 else None),
              py_float = (\<lambda>s. (None :: unit option))\<rparr>"
  have ws: "\<forall>s. all_whitespace s \<longrightarrow> py_int ?bi s = None \<and> py_float ?bi s = None"
    by (simp add: all_whitespace_def py_isspace_def)
  have ne: "''42'' \<noteq> []" "''4x'' \<noteq> []" by simp_all
  show ?thesis
    using convert_type_numeric_never_raises [OF ne(1) ws, of "PInt 0 :: (unit, unit) pyval"]
      convert_type_numeric_never_raises [OF ne(2) ws, of "PInt 0 :: (unit, unit) pyval"]
      convert_type_numeric_never_raises [OF ne(2) ws, of "PNone :: (unit, unit) pyval"]
    by simp
qed

section \<open>Properties of the streaming reader and the batcher\<close>

lemma stream_count:
  "length (fst (stream_subtree rt e)) = count_tag rt e"
  "length (fst (stream_forest rt cs)) = sum_list (map (count_tag rt) cs)"
  by (induction rt e and rt cs rule: stream_subtree_stream_forest.induct)
     (simp_all add: Let_def)

lemma stream_handler_wraps: "\<exists>msg. stream_handler e = XMLIngestionError msg"
  by (cases e) simp_all

lemma generator_raise_stream_handler:
  "generator_raise (stream_handler e) = stream_handler e"
  using stream_handler_wraps [of e] by auto

lemma stream_records_exn:
  assumes "stream_records cfg src = (es, Some e)"
  shows "\<exists>msg. e = XMLIngestionError msg"
proof -
  obtain elems x where b: "stream_body cfg src = (elems, x)"
    by (cases "stream_body cfg src") auto
  with assms obtain raw where "e = stream_handler raw"
    by (cases x) (auto simp: stream_records_def generator_raise_stream_handler)
  with stream_handler_wraps [of raw] show ?thesis by simp
qed

lemma batch_loop_concat:
  assumes "\<forall>e \<in> set es. f e = Inr (g e)"
  shows "\<exists>bs rest. batch_loop B f es batch = (bs, None, rest)
           \<and> concat bs @ rest = batch @ map g es"
  using assms
proof (induction es arbitrary: batch)
  case Nil
  then show ?case by simp
next
  case (Cons e es)
  from Cons.prems have fe: "f e = Inr (g e)" and rest: "\<forall>e \<in> set es. f e = Inr (g e)"
    by simp_all
  show ?case
  proof (cases "int (length (batch @ [g e])) \<ge> B")
    case True
    from Cons.IH [OF rest, of "[]"] obtain bs r where
      "batch_loop B f es [] = (bs, None, r)" "concat bs @ r = map g es" by auto
    with True fe show ?thesis by (simp add: Let_def)
  next
    case False
    from Cons.IH [OF rest, of "batch @ [g e]"] obtain bs r where
      "batch_loop B f es (batch @ [g e]) = (bs, None, r)"
      "concat bs @ r = (batch @ [g e]) @ map g es" by auto
    with False fe show ?thesis by (simp add: Let_def)
  qed
qed

lemma batch_loop_sizes:
  assumes "1 \<le> B" and "int (length batch) < B"
    and "batch_loop B f es batch = (bs, x, rest)"
  shows "(\<forall>b \<in> set bs. int (length b) = B) \<and> int (length rest) < B"
  using assms(2,3)
proof (induction es arbitrary: batch bs x rest)
  case Nil
  then show ?case by simp
next
  case (Cons e es)
  show ?case
  proof (cases "f e")
    case (Inl err)
    with Cons.prems show ?thesis by simp
  next
    case (Inr r)
    show ?thesis
    proof (cases "int (length (batch @ [r])) \<ge> B")
      case True
      with Cons.prems(1) have len: "int (length (batch @ [r])) = B" by simp
      obtain bs' x' rest' where rec: "batch_loop B f es [] = (bs', x', rest')"
        by (cases "batch_loop B f es []") auto
      from assms(1) have "int (length ([] :: Record list)) < B" by simp
      from Cons.IH [OF this rec]
      have ih: "(\<forall>b \<in> set bs'. int (length b) = B) \<and> int (length rest') < B" .
      from Cons.prems(2) Inr True rec
      have "bs = (batch @ [r]) # bs'" "rest = rest'" by (simp_all add: Let_def)
      with ih len show ?thesis by simp
    next
      case False
      then have lt: "int (length (batch @ [r])) < B" by simp
      from Cons.prems(2) Inr False
      have "batch_loop B f es (batch @ [r]) = (bs, x, rest)" by (simp add: Let_def)
      from Cons.IH [OF lt this] show ?thesis .
    qed
  qed
qed

lemma length_concat_uniform:
  assumes "\<forall>b \<in> set bs. length b = n"
  shows "length (concat bs) = length bs * n"
  using assms by (induction bs) simp_all

lemma map_length_uniform:
  assumes "\<forall>b \<in> set bs. length b = n"
  shows "map length bs = replicate (length bs) n"
  using assms by (induction bs) simp_all

lemma div_mod_unique_nat:
  fixes n :: nat
  assumes "m = q * n + r" and "r < n"
  shows "q = m div n \<and> r = m mod n"
  using assms by simp

lemma ceil_div_nat:
  fixes n :: nat
  assumes "0 < n"
  shows "(m + n - 1) div n = m div n + (if m mod n = 0 then 0 else 1)"
proof -
  define q r where "q = m div n" and "r = m mod n"
  have m: "m = n * q + r" and r: "r < n"
    using assms by (simp_all add: q_def r_def)
  show ?thesis
  proof (cases "r = 0")
    case True
    have "m + n - 1 = n * q + (n - 1)" using m True assms by simp
    then have "(m + n - 1) div n = q + (n - 1) div n" by (simp add: assms)
    also have "(n - 1) div n = 0" using assms by simp
    finally show ?thesis using True by (simp add: q_def r_def)
  next
    case False
    have "m + n - 1 = n * (q + 1) + (r - 1)" using m False by (simp add: algebra_simps)
    then have "(m + n - 1) div n = (q + 1) + (r - 1) div n"
      using assms by (metis div_mult_self4 less_numeral_extra(3))
    also have "(r - 1) div n = 0" using r by simp
    finally show ?thesis using False by (simp add: q_def r_def)
  qed
qed

lemma batch_loop_shape:
  assumes B: "1 \<le> B" and ok: "\<forall>e \<in> set es. f e = Inr (g e)"
  shows "\<exists>bs rest. batch_loop B f es [] = (bs, None, rest)
           \<and> concat bs @ rest = map g es
           \<and> map length bs = replicate (length es div nat B) (nat B)
           \<and> length rest = length es mod nat B"
proof -
  from batch_loop_concat [OF ok, of B "[]"] obtain bs rest where
    run: "batch_loop B f es [] = (bs, None, rest)" and cat: "concat bs @ rest = map g es"
    by auto
  from B have "int (length ([] :: Record list)) < B" by simp
  from batch_loop_sizes [OF B this run]
  have full: "\<forall>b \<in> set bs. int (length b) = B" and short: "int (length rest) < B"
    by simp_all
  from full B have full': "\<forall>b \<in> set bs. length b = nat B" by auto
  from short B have short': "length rest < nat B" by simp
  have "length (concat bs @ rest) = length es" by (simp only: cat length_map)
  then have "length es = length bs * nat B + length rest"
    by (simp add: length_concat_uniform [OF full'])
  from div_mod_unique_nat [OF this short']
  have "length bs = length es div nat B" "length rest = length es mod nat B" by simp_all
  with run cat map_length_uniform [OF full'] show ?thesis by simp
qed

lemma stream_records_document:
  "stream_records cfg (Document root) = (fst (stream_subtree (record_tag cfg) root), None)"
  by (simp add: stream_records_def stream_body_def)

lemma stream_records_length:
  "length (fst (stream_records cfg src)) = count_source (record_tag cfg) src"
  by (cases src)
     (simp_all add: stream_records_def stream_body_def count_source_def stream_count)

lemma ingest_batch_document:
  assumes B: "1 \<le> batch_size cfg"
    and ok: "\<forall>e \<in> set (fst (stream_records cfg (Document root))).
               apply_transform cfg tf e = Inr (g e)"
  shows "\<exists>bs. ingest_batch cfg (Document root) tf = (bs, None)
           \<and> concat bs = map g (fst (stream_records cfg (Document root)))
           \<and> map length bs =
               replicate (count_tag (record_tag cfg) root div nat (batch_size cfg))
                 (nat (batch_size cfg))
               @ (if count_tag (record_tag cfg) root mod nat (batch_size cfg) = 0 then []
                  else [count_tag (record_tag cfg) root mod nat (batch_size cfg)])"
proof -
  let ?es = "fst (stream_subtree (record_tag cfg) root)"
  have es: "stream_records cfg (Document root) = (?es, None)"
    by (rule stream_records_document)
  have n: "length ?es = count_tag (record_tag cfg) root"
    by (rule stream_count)
  from ok es have ok': "\<forall>e \<in> set ?es. apply_transform cfg tf e = Inr (g e)" by simp
  from batch_loop_shape [OF B ok'] obtain bs rest where
    run: "batch_loop (batch_size cfg) (apply_transform cfg tf) ?es [] = (bs, None, rest)"
    and cat: "concat bs @ rest = map g ?es"
    and lens: "map length bs = replicate (length ?es div nat (batch_size cfg)) (nat (batch_size cfg))"
    and rest: "length rest = length ?es mod nat (batch_size cfg)"
    by blast
  show ?thesis
  proof (cases "rest = []")
    case True
    with run es cat lens rest n show ?thesis
      by (simp add: ingest_batch_def)
  next
    case False
    with run es have "ingest_batch cfg (Document root) tf = (bs @ [rest], None)"
      by (simp add: ingest_batch_def)
    moreover have "length ?es mod nat (batch_size cfg) \<noteq> 0"
    proof -
      from False have "length rest \<noteq> 0" by simp
      with rest show ?thesis by simp
    qed
    ultimately show ?thesis using cat lens rest n es by simp
  qed
qed

lemma ingest_batch_sizes:
  assumes B: "1 \<le> batch_size cfg" and b: "b \<in> set (fst (ingest_batch cfg src tf))"
  shows "b \<noteq> [] \<and> int (length b) \<le> batch_size cfg"
proof -
  obtain elems sx where st: "stream_records cfg src = (elems, sx)"
    by (cases "stream_records cfg src") auto
  obtain bs x rest where
    run: "batch_loop (batch_size cfg) (apply_transform cfg tf) elems [] = (bs, x, rest)"
    by (cases "batch_loop (batch_size cfg) (apply_transform cfg tf) elems []") auto
  from B have "int (length ([] :: Record list)) < batch_size cfg" by simp
  from batch_loop_sizes [OF B this run]
  have full: "\<forall>b \<in> set bs. int (length b) = batch_size cfg"
    and short: "int (length rest) < batch_size cfg" by simp_all
  from st run have "set (fst (ingest_batch cfg src tf)) \<subseteq> set bs \<union> (if rest \<noteq> [] then {rest} else {})"
    by (auto simp: ingest_batch_def split: option.splits if_splits)
  with b have "b \<in> set bs \<or> (b = rest \<and> rest \<noteq> [])" by (auto split: if_splits)
  then show ?thesis
  proof
    assume "b \<in> set bs"
    with full B have "int (length b) = batch_size cfg" by simp
    with B show ?thesis by auto
  next
    assume "b = rest \<and> rest \<noteq> []"
    with short show ?thesis by simp
  qed
qed

lemma ingest_batch_no_records:
  assumes "count_source (record_tag cfg) src = 0"
  shows "ingest_batch cfg src tf = ([], snd (stream_records cfg src))"
proof -
  from assms have "fst (stream_records cfg src) = []"
    using stream_records_length [of cfg src] by simp
  then obtain sx where st: "stream_records cfg src = ([], sx)"
    by (cases "stream_records cfg src") auto
  have "generator_raise e = e" if "sx = Some e" for e
    using stream_records_exn [of cfg src "[]" e] st that by auto
  with st show ?thesis by (simp add: ingest_batch_def split: option.splits)
qed

text \<open>
  C1. For every batch size of at least one and every well-formed document, the batches
  that \<open>ingest_batch\<close> yields with the default extractor, concatenated, are exactly
  the Records that \<open>element_to_dict\<close> gives on the streamed record elements, one after
  the other: same length, same order, same fields. The generator ends without an
  exception.
\<close>

theorem ingest_batch_preserves_records:
  assumes "1 \<le> batch_size cfg"
  shows "snd (ingest_batch cfg (Document root) None) = None
       \<and> concat (fst (ingest_batch cfg (Document root) None)) =
           map (element_to_dict cfg) (fst (stream_records cfg (Document root)))"
proof -
  have "\<forall>e \<in> set (fst (stream_records cfg (Document root))).
          apply_transform cfg None e = Inr (element_to_dict cfg e)"
    by (simp add: apply_transform_def)
  from ingest_batch_document [OF assms this] show ?thesis by auto
qed

text \<open>
  C2. For a well-formed document with \<open>N\<close> elements whose tag is the record tag and
  a batch size \<open>B\<close> of at least one, \<open>ingest_batch\<close> (with the default extractor,
  or a transform that raises on none of the streamed elements) yields
  \<open>(N + B - 1) div B\<close> batches, the ceiling of \<open>N / B\<close>: none when \<open>N = 0\<close>, and
  otherwise \<open>N div B\<close> full batches followed by one of \<open>N mod B\<close> records when
  that is not zero. Five records with batches of two give the sizes 2, 2, 1.
\<close>

theorem ingest_batch_count:
  assumes "1 \<le> batch_size cfg"
    and "\<forall>e \<in> set (fst (stream_records cfg (Document root))).
           \<exists>r. apply_transform cfg tf e = Inr r"
  shows "snd (ingest_batch cfg (Document root) tf) = None
       \<and> length (fst (ingest_batch cfg (Document root) tf)) =
           (count_tag (record_tag cfg) root + nat (batch_size cfg) - 1) div nat (batch_size cfg)
       \<and> (count_tag (record_tag cfg) root = 0 \<longrightarrow>
             fst (ingest_batch cfg (Document root) tf) = [])
       \<and> map length (fst (ingest_batch cfg (Document root) tf)) =
           replicate (count_tag (record_tag cfg) root div nat (batch_size cfg))
             (nat (batch_size cfg))
           @ (if count_tag (record_tag cfg) root mod nat (batch_size cfg) = 0 then []
              else [count_tag (record_tag cfg) root mod nat (batch_size cfg)])"
proof -
  let ?N = "count_tag (record_tag cfg) root" and ?B = "nat (batch_size cfg)"
  let ?g = "\<lambda>e. projr (apply_transform cfg tf e)"
  from assms(2) have
    "\<forall>e \<in> set (fst (stream_records cfg (Document root))).
       apply_transform cfg tf e = Inr (?g e)" by auto
  from ingest_batch_document [OF assms(1) this] obtain bs where
    run: "ingest_batch cfg (Document root) tf = (bs, None)"
    and lens: "map length bs = replicate (?N div ?B) ?B @ (if ?N mod ?B = 0 then [] else [?N mod ?B])"
    by blast
  from assms(1) have pos: "0 < ?B" by simp
  have "length bs = length (map length bs)" by simp
  also have "\<dots> = ?N div ?B + (if ?N mod ?B = 0 then 0 else 1)"
    by (simp only: lens) simp
  also have "\<dots> = (?N + ?B - 1) div ?B"
    by (rule ceil_div_nat [OF pos, symmetric])
  finally have len: "length bs = (?N + ?B - 1) div ?B" .
  have "?N = 0 \<longrightarrow> bs = []"
  proof
    assume "?N = 0"
    with len pos have "length bs = 0" by simp
    then show "bs = []" by simp
  qed
  with run lens len show ?thesis by simp
qed

text \<open>
  C9. For a batch size of at least one, every batch that \<open>ingest_batch\<close> yields, on
  any source and with any transform, is non-empty and holds at most \<open>batch_size\<close>
  Records; a source with no record-tag element yields no batch; and on a well-formed
  document with no such element \<open>ingest_to_dataframe\<close> returns the empty Table
  (when the validation gate, if enabled, lets the document through).
\<close>

theorem batches_bounded_and_empty_source:
  assumes "1 \<le> batch_size cfg"
  shows "(\<forall>b \<in> set (fst (ingest_batch cfg src tf)).
            b \<noteq> [] \<and> int (length b) \<le> batch_size cfg)
       \<and> (count_source (record_tag cfg) src = 0 \<longrightarrow> fst (ingest_batch cfg src tf) = [])
       \<and> (count_tag (record_tag cfg) root = 0
            \<and> (validate_schema cfg \<longrightarrow> validate_xml cfg lx = Inr True) \<longrightarrow>
           ingest_to_dataframe cfg lx (Document root) tf = Inr [])"
proof (intro conjI ballI impI)
  fix b assume "b \<in> set (fst (ingest_batch cfg src tf))"
  from ingest_batch_sizes [OF assms this]
  show "b \<noteq> []" and "int (length b) \<le> batch_size cfg" by simp_all
next
  assume "count_source (record_tag cfg) src = 0"
  then show "fst (ingest_batch cfg src tf) = []"
    by (simp add: ingest_batch_no_records)
next
  assume a: "count_tag (record_tag cfg) root = 0
    \<and> (validate_schema cfg \<longrightarrow> validate_xml cfg lx = Inr True)"
  then have "count_source (record_tag cfg) (Document root) = 0"
    by (simp add: count_source_def)
  then have "ingest_batch cfg (Document root) tf = ([], None)"
    by (simp add: ingest_batch_no_records stream_records_document)
  with a show "ingest_to_dataframe cfg lx (Document root) tf = Inr []"
    by (auto simp: ingest_to_dataframe_def collect_batches_def)
qed

subsection \<open>The batching scenario\<close>

lemma sample_stream:
  "fst (stream_records sample_config (Document sample_document)) =
     [sample_record ''1'', sample_record ''2'', sample_record ''3'',
      sample_record ''4'', sample_record ''5'']"
  by (simp add: stream_records_def stream_body_def sample_config_def default_config_def
      sample_document_def sample_record_def Let_def)

lemma sample_count: "count_tag (record_tag sample_config) sample_document = 5"
  by (simp add: sample_config_def default_config_def sample_document_def sample_record_def)

lemma sample_batch_size: "batch_size sample_config = 2"
  by (simp add: sample_config_def)

theorem ingest_batch_preserves_records_witness:
  "1 \<le> batch_size sample_config
   \<and> snd (ingest_batch sample_config (Document sample_document) None) = None
   \<and> concat (fst (ingest_batch sample_config (Document sample_document) None)) =
       map (element_to_dict sample_config)
         [sample_record ''1'', sample_record ''2'', sample_record ''3'',
          sample_record ''4'', sample_record ''5'']"
proof -
  have B: "1 \<le> batch_size sample_config" by (simp add: sample_batch_size)
  from ingest_batch_preserves_records [OF B, of sample_document] B
  show ?thesis by (simp add: sample_stream)
qed

theorem ingest_batch_count_witness:
  "1 \<le> batch_size sample_config
   \<and> count_tag (record_tag sample_config) sample_document = 5
   \<and> length (fst (ingest_batch sample_config (Document sample_document) None)) = 3
   \<and> map length (fst (ingest_batch sample_config (Document sample_document) None)) = [2, 2, 1]"
proof -
  have B: "1 \<le> batch_size sample_config" by (simp add: sample_batch_size)
  have ok: "\<forall>e \<in> set (fst (stream_records sample_config (Document sample_document))).
              \<exists>r. apply_transform sample_config None e = Inr r"
    by (simp add: apply_transform_def)
  have r: "replicate (5 div 2) (2::nat) @ [5 mod 2] = [2, 2, 1]"
    by code_simp
  from ingest_batch_count [OF B ok] B r
  show ?thesis by (simp add: sample_count sample_batch_size)
qed

theorem batches_bounded_and_empty_source_witness:
  "1 \<le> batch_size sample_config
   \<and> count_source (record_tag sample_config) (Document no_record_document) = 0
   \<and> fst (ingest_batch sample_config (Document no_record_document) None) = []
   \<and> ingest_to_dataframe sample_config LxmlValid (Document no_record_document) None = Inr []
   \<and> list_all (\<lambda>b. b \<noteq> [] \<and> int (length b) \<le> 2)
        (fst (ingest_batch sample_config (Document sample_document) None))"
proof -
  have B: "1 \<le> batch_size sample_config" by (simp add: sample_batch_size)
  have z: "count_tag (record_tag sample_config) no_record_document = 0"
    by (simp add: sample_config_def default_config_def no_record_document_def)
  have v: "\<not> validate_schema sample_config"
    by (simp add: sample_config_def default_config_def)
  from batches_bounded_and_empty_source [OF B,
      of "Document no_record_document" None no_record_document LxmlValid]
    batches_bounded_and_empty_source [OF B,
      of "Document sample_document" None no_record_document LxmlValid]
    B z v
  show ?thesis by (simp add: count_source_def list_all_iff sample_batch_size)
qed

section \<open>Failures of the reader\<close>

text \<open>
  C6. On a malformed source the parser raises \<^verbatim>\<open>ET.ParseError\<close> inside the
  \<^verbatim>\<open>try\<close> block (after the end events of the subtrees it completed);
  \<open>stream_records\<close> yields those elements and then raises \<open>XMLIngestionError\<close>
  whose message carries the message of the parse error. Every other exception of the
  reader is wrapped in the same way, so whenever \<open>stream_records\<close> raises, it raises
  an \<open>XMLIngestionError\<close> and never the raw exception.
\<close>

theorem stream_records_wraps_failures:
  "stream_body cfg (Interrupted done (ParseError m)) =
     (fst (stream_forest (record_tag cfg) done), Some (ParseError m))
   \<and> stream_records cfg (Interrupted done (ParseError m)) =
     (fst (stream_forest (record_tag cfg) done),
      Some (XMLIngestionError (''XML parsing error: '' @ m)))
   \<and> (\<exists>msg. snd (stream_records cfg (Interrupted done e)) = Some (XMLIngestionError msg))
   \<and> (\<forall>e'. snd (stream_records cfg src) = Some e' \<longrightarrow>
         (\<exists>raw msg. snd (stream_body cfg src) = Some raw \<and> e' = XMLIngestionError msg))"
proof (intro conjI allI impI)
  show "stream_body cfg (Interrupted done (ParseError m)) =
     (fst (stream_forest (record_tag cfg) done), Some (ParseError m))"
    by (simp add: stream_body_def)
  show "stream_records cfg (Interrupted done (ParseError m)) =
     (fst (stream_forest (record_tag cfg) done),
      Some (XMLIngestionError (''XML parsing error: '' @ m)))"
    by (simp add: stream_records_def stream_body_def)
  show "\<exists>msg. snd (stream_records cfg (Interrupted done e)) = Some (XMLIngestionError msg)"
    by (cases e) (simp_all add: stream_records_def stream_body_def)
next
  fix e' assume a: "snd (stream_records cfg src) = Some e'"
  obtain elems x where b: "stream_body cfg src = (elems, x)"
    by (cases "stream_body cfg src") auto
  with a obtain raw where raw: "x = Some raw" "e' = stream_handler raw"
    by (cases x) (auto simp: stream_records_def generator_raise_stream_handler)
  have "\<exists>msg. stream_handler raw = XMLIngestionError msg" by (cases raw) simp_all
  with raw b show "\<exists>raw msg. snd (stream_body cfg src) = Some raw \<and> e' = XMLIngestionError msg"
    by auto
qed

theorem stream_records_wraps_failures_witness:
  "stream_records sample_config
     (Interrupted [sample_record ''1''] (ParseError ''no element found: line 4, column 0'')) =
     ([sample_record ''1''],
      Some (XMLIngestionError ''XML parsing error: no element found: line 4, column 0''))
   \<and> snd (stream_records sample_config (Interrupted [] (OtherException ''No such file''))) =
       Some (XMLIngestionError ''Unexpected error during streaming: No such file'')"
proof -
  have a: "snd (stream_records sample_config (Interrupted [] (OtherException ''No such file'')))
      = Some (stream_handler (OtherException ''No such file''))"
    by (simp add: stream_records_def stream_body_def)
  from stream_records_wraps_failures [of sample_config "[sample_record ''1'']"
      "''no element found: line 4, column 0''" "OtherException ''No such file''"
      "Interrupted [] (OtherException ''No such file'')"] a
  show ?thesis
    by (simp add: sample_config_def default_config_def sample_record_def Let_def)
qed

section \<open>The validation gate\<close>

lemma validate_xml_raises:
  assumes "validate_xml cfg lx = Inl e"
  shows "\<exists>msg. e = XMLIngestionError msg"
  using assms by (auto simp: validate_xml_def split: if_splits lxml.splits)

text \<open>
  C7. With \<open>validate_schema\<close> set, when \<open>validate_xml\<close> does not return true
  (it returns false, or raises), \<open>ingest_to_dataframe\<close> raises an
  \<open>XMLIngestionError\<close> and returns no Table. The outcome is the same for every source
  and every transform: nothing is streamed before the gate. A false result gives the
  message \<^verbatim>\<open>XML validation failed\<close>.
\<close>

theorem validation_failure_aborts:
  assumes "validate_schema cfg" and "validate_xml cfg lx \<noteq> Inr True"
  shows "(\<exists>msg. ingest_to_dataframe cfg lx src tf = Inl (XMLIngestionError msg))
       \<and> ingest_to_dataframe cfg lx src tf = ingest_to_dataframe cfg lx src' tf'
       \<and> (validate_xml cfg lx = Inr False \<longrightarrow>
            ingest_to_dataframe cfg lx src tf = Inl (XMLIngestionError ''XML validation failed''))"
proof (cases "validate_xml cfg lx")
  case (Inl e)
  with validate_xml_raises obtain msg where "e = XMLIngestionError msg" by blast
  with Inl assms(1) show ?thesis by (simp add: ingest_to_dataframe_def)
next
  case (Inr ok)
  with assms(2) have "\<not> ok" by simp
  with Inr assms(1) show ?thesis by (simp add: ingest_to_dataframe_def)
qed

theorem validation_failure_aborts_witness:
  "validate_schema validating_config
   \<and> validate_xml validating_config LxmlInvalid = Inr False
   \<and> ingest_to_dataframe validating_config LxmlInvalid (Document sample_document) None =
       Inl (XMLIngestionError ''XML validation failed'')
   \<and> ingest_to_dataframe validating_config (LxmlRaises (OtherException ''bad schema''))
        (Document sample_document) None =
       Inl (XMLIngestionError ''Validation error: bad schema'')"
proof -
  have on: "validate_schema validating_config"
    by (simp add: validating_config_def)
  have f: "validate_xml validating_config LxmlInvalid = Inr False"
    by (simp add: validate_xml_def validating_config_def truthy_def)
  then have ne: "validate_xml validating_config LxmlInvalid \<noteq> Inr True" by simp
  have r: "validate_xml validating_config (LxmlRaises (OtherException ''bad schema'')) =
      Inl (XMLIngestionError ''Validation error: bad schema'')"
    by (simp add: validate_xml_def validating_config_def truthy_def)
  then have ne': "validate_xml validating_config (LxmlRaises (OtherException ''bad schema''))
      \<noteq> Inr True" by simp
  have "ingest_to_dataframe validating_config (LxmlRaises (OtherException ''bad schema''))
        (Document sample_document) None =
       Inl (XMLIngestionError ''Validation error: bad schema'')"
    using on r by (simp add: ingest_to_dataframe_def)
  with validation_failure_aborts [OF on ne, of "Document sample_document" None]
    validation_failure_aborts [OF on ne', of "Document sample_document" None] on f
  show ?thesis by simp
qed

section \<open>Exceptions of the caller's transform\<close>

lemma batch_loop_raises:
  assumes "batch_loop B f pre batch = (bs, None, rest)" and "f x = Inl e"
  shows "batch_loop B f (pre @ x # post) batch = (bs, Some e, rest)"
  using assms(1)
proof (induction pre arbitrary: batch bs rest)
  case Nil
  with assms(2) show ?case by simp
next
  case (Cons y pre)
  show ?case
  proof (cases "f y")
    case (Inl err)
    with Cons.prems show ?thesis by simp
  next
    case (Inr r)
    show ?thesis
    proof (cases "int (length (batch @ [r])) \<ge> B")
      case True
      obtain bs' x' rest' where rec: "batch_loop B f pre [] = (bs', x', rest')"
        by (cases "batch_loop B f pre []") auto
      with Cons.prems Inr True have "x' = None" "bs = (batch @ [r]) # bs'" "rest = rest'"
        by (simp_all add: Let_def)
      with rec Cons.IH [of "[]" bs' rest'] Inr True show ?thesis
        by (simp add: Let_def)
    next
      case False
      with Cons.prems Inr have "batch_loop B f pre (batch @ [r]) = (bs, None, rest)"
        by (simp add: Let_def)
      from Cons.IH [OF this] Inr False show ?thesis by (simp add: Let_def)
    qed
  qed
qed

text \<open>
  C8 (amended). When the caller's transform raises \<open>e\<close> on a streamed element (and
  on none before it), the ingestion aborts. An exception other than
  \<^verbatim>\<open>StopIteration\<close> is the end of \<open>ingest_batch\<close> as it is, not wrapped, and so
  of \<open>ingest_to_dataframe\<close> once the validation gate is passed. A
  \<^verbatim>\<open>StopIteration\<close> does not leave the generator: the caller gets
  \<^verbatim>\<open>RuntimeError('generator raised StopIteration')\<close>. In both cases only the
  batches that were full before the failing element have been yielded: the records
  waiting in the buffer are not flushed.
\<close>

theorem transform_exception_propagates:
  assumes "fst (stream_records cfg src) = pre @ x # post"
    and "\<forall>y \<in> set pre. \<exists>r. g y = Inr r"
    and "g x = Inl e"
  shows "((\<forall>m. e \<noteq> StopIteration m) \<longrightarrow>
            snd (ingest_batch cfg src (Some g)) = Some e
            \<and> ((validate_schema cfg \<longrightarrow> validate_xml cfg lx = Inr True) \<longrightarrow>
                 ingest_to_dataframe cfg lx src (Some g) = Inl e))
       \<and> ((\<exists>m. e = StopIteration m) \<longrightarrow>
            snd (ingest_batch cfg src (Some g)) =
              Some (RuntimeError ''generator raised StopIteration'')
            \<and> ((validate_schema cfg \<longrightarrow> validate_xml cfg lx = Inr True) \<longrightarrow>
                 ingest_to_dataframe cfg lx src (Some g) =
                   Inl (RuntimeError ''generator raised StopIteration'')))
       \<and> (1 \<le> batch_size cfg \<longrightarrow>
            map length (fst (ingest_batch cfg src (Some g))) =
              replicate (length pre div nat (batch_size cfg)) (nat (batch_size cfg)))"
proof -
  let ?f = "apply_transform cfg (Some g)" and ?B = "batch_size cfg"
  have f: "?f = g" by (rule ext) (simp add: apply_transform_def)
  from assms(2) have ok: "\<forall>y \<in> set pre. g y = Inr (projr (g y))" by auto
  from batch_loop_concat [OF ok, of ?B "[]"] obtain bs rest where
    pre: "batch_loop ?B g pre [] = (bs, None, rest)" by blast
  from batch_loop_raises [OF pre assms(3)]
  have run: "batch_loop ?B g (pre @ x # post) [] = (bs, Some e, rest)" .
  obtain sx where st: "stream_records cfg src = (pre @ x # post, sx)"
    using assms(1) by (cases "stream_records cfg src") auto
  from st run have ib: "ingest_batch cfg src (Some g) = (bs, Some (generator_raise e))"
    by (simp add: ingest_batch_def f)
  have shape: "1 \<le> ?B \<longrightarrow> map length bs = replicate (length pre div nat ?B) (nat ?B)"
  proof
    assume B: "1 \<le> ?B"
    from batch_loop_shape [OF B ok] pre
    show "map length bs = replicate (length pre div nat ?B) (nat ?B)" by auto
  qed
  have same: "generator_raise e = e" if "\<forall>m. e \<noteq> StopIteration m"
    using that by (cases e) simp_all
  have stop: "generator_raise e = RuntimeError ''generator raised StopIteration''"
    if "\<exists>m. e = StopIteration m"
    using that by auto
  have gate: "ingest_to_dataframe cfg lx src (Some g) = Inl (generator_raise e)"
    if "validate_schema cfg \<longrightarrow> validate_xml cfg lx = Inr True"
    using that ib by (auto simp: ingest_to_dataframe_def collect_batches_def)
  show ?thesis
  proof (intro conjI impI)
    assume a: "\<forall>m. e \<noteq> StopIteration m"
    show "snd (ingest_batch cfg src (Some g)) = Some e"
      by (simp add: ib same [OF a])
    assume "validate_schema cfg \<longrightarrow> validate_xml cfg lx = Inr True"
    then show "ingest_to_dataframe cfg lx src (Some g) = Inl e"
      by (simp add: gate same [OF a])
  next
    assume a: "\<exists>m. e = StopIteration m"
    show "snd (ingest_batch cfg src (Some g)) =
        Some (RuntimeError ''generator raised StopIteration'')"
      by (simp add: ib stop [OF a])
    assume "validate_schema cfg \<longrightarrow> validate_xml cfg lx = Inr True"
    then show "ingest_to_dataframe cfg lx src (Some g) =
        Inl (RuntimeError ''generator raised StopIteration'')"
      by (simp add: gate stop [OF a])
  next
    assume "1 \<le> ?B"
    with shape ib
    show "map length (fst (ingest_batch cfg src (Some g))) =
        replicate (length pre div nat ?B) (nat ?B)" by simp
  qed
qed

theorem transform_exception_propagates_witness:
  "snd (ingest_batch sample_config (Document sample_document) (Some failing_transform)) =
     Some (ValueError ''could not convert'')
   \<and> ingest_to_dataframe sample_config LxmlValid (Document sample_document)
       (Some failing_transform) = Inl (ValueError ''could not convert'')
   \<and> map length (fst (ingest_batch sample_config (Document sample_document)
       (Some failing_transform))) = [2]
   \<and> ingest_to_dataframe sample_config LxmlValid (Document sample_document)
       (Some stopping_transform) = Inl (RuntimeError ''generator raised StopIteration'')
   \<and> map length (fst (ingest_batch sample_config (Document sample_document)
       (Some stopping_transform))) = [2]"
proof -
  have s: "fst (stream_records sample_config (Document sample_document)) =
      [sample_record ''1'', sample_record ''2'', sample_record ''3'']
      @ sample_record ''4'' # [sample_record ''5'']"
    by (simp add: sample_stream)
  have ok: "\<forall>y \<in> set [sample_record ''1'', sample_record ''2'', sample_record ''3''].
      \<exists>r. failing_transform y = Inr r"
    by (simp add: failing_transform_def sample_record_def)
  have bad: "failing_transform (sample_record ''4'') = Inl (ValueError ''could not convert'')"
    by (simp add: failing_transform_def sample_record_def)
  have ok': "\<forall>y \<in> set [sample_record ''1'', sample_record ''2'', sample_record ''3''].
      \<exists>r. stopping_transform y = Inr r"
    by (simp add: stopping_transform_def sample_record_def)
  have bad': "stopping_transform (sample_record ''4'') = Inl (StopIteration ''stop'')"
    by (simp add: stopping_transform_def sample_record_def)
  have v: "\<not> validate_schema sample_config"
    by (simp add: sample_config_def default_config_def)
  have r: "replicate (3 div 2) (2::nat) = [2]" by code_simp
  from transform_exception_propagates [OF s ok bad, of LxmlValid]
    transform_exception_propagates [OF s ok' bad', of LxmlValid] v r
  show ?thesis by (simp add: sample_batch_size)
qed

text \<open>
  C8 without the amendment (every exception of the transform reaches the caller
  unmodified) fails on a transform that raises \<^verbatim>\<open>StopIteration\<close>: it raises on
  the fourth sample record, and what reaches the caller of \<open>ingest_batch\<close> and of
  \<open>ingest_to_dataframe\<close> is not that exception but a \<^verbatim>\<open>RuntimeError\<close>.
\<close>

theorem transform_stop_iteration_counterexample:
  "stopping_transform (sample_record ''4'') = Inl (StopIteration ''stop'')
   \<and> snd (ingest_batch sample_config (Document sample_document) (Some stopping_transform))
       \<noteq> Some (StopIteration ''stop'')
   \<and> snd (ingest_batch sample_config (Document sample_document) (Some stopping_transform))
       = Some (RuntimeError ''generator raised StopIteration'')
   \<and> ingest_to_dataframe sample_config LxmlValid (Document sample_document)
       (Some stopping_transform) \<noteq> Inl (StopIteration ''stop'')"
proof -
  have run: "ingest_batch sample_config (Document sample_document) (Some stopping_transform)
      = ([[[(''id'', Scalar ''1'')], [(''id'', Scalar ''2'')]]],
         Some (RuntimeError ''generator raised StopIteration''))"
    by (simp add: ingest_batch_def stream_records_def stream_body_def apply_transform_def
        stopping_transform_def sample_document_def sample_record_def sample_config_def
        default_config_def Let_def)
  have bad: "stopping_transform (sample_record ''4'') = Inl (StopIteration ''stop'')"
    by (simp add: stopping_transform_def sample_record_def)
  have v: "\<not> validate_schema sample_config"
    by (simp add: sample_config_def default_config_def)
  from run bad v show ?thesis
    by (simp add: ingest_to_dataframe_def collect_batches_def)
qed

section \<open>The default extractor\<close>

lemma py_split_no_sep: "sep \<notin> set s \<Longrightarrow> py_split sep s = [s]"
  by (induction s) auto

lemma py_split_append:
  "sep \<notin> set pre \<Longrightarrow> py_split sep (pre @ sep # post) = pre # py_split sep post"
  by (induction pre) auto

lemma py_split_length:
  "length (py_split sep s) = Suc (length (filter (\<lambda>c. c = sep) s))"
  by (induction s) (auto split: list.splits)

lemma strip_namespace_parser_tag:
  assumes "parser_tag t"
  shows "strip_namespace t = local_name t"
proof (cases "CHR ''}'' \<in> set t")
  case False
  then show ?thesis by (simp add: strip_namespace_def local_name_def)
next
  case True
  define pre where "pre = takeWhile (\<lambda>c. c \<noteq> CHR ''}'') t"
  define post where "post = tl (dropWhile (\<lambda>c. c \<noteq> CHR ''}'') t)"
  from True have "dropWhile (\<lambda>c. c \<noteq> CHR ''}'') t \<noteq> []" by simp
  moreover from this have "hd (dropWhile (\<lambda>c. c \<noteq> CHR ''}'') t) = CHR ''}''"
    using hd_dropWhile [of "\<lambda>c. c \<noteq> CHR ''}''" t] by simp
  ultimately have "dropWhile (\<lambda>c. c \<noteq> CHR ''}'') t = CHR ''}'' # post"
    by (cases "dropWhile (\<lambda>c. c \<noteq> CHR ''}'') t") (simp_all add: post_def)
  then have t: "t = pre @ CHR ''}'' # post"
    using takeWhile_dropWhile_id [of "\<lambda>c. c \<noteq> CHR ''}''" t] by (simp add: pre_def)
  have pre: "CHR ''}'' \<notin> set pre"
    by (auto simp: pre_def dest: set_takeWhileD)
  then have "filter (\<lambda>c. c = CHR ''}'') pre = []" by (auto simp: filter_empty_conv)
  with assms t have "filter (\<lambda>c. c = CHR ''}'') post = []"
    by (simp add: parser_tag_def)
  then have post: "CHR ''}'' \<notin> set post" by (auto simp: filter_empty_conv)
  have "py_split (CHR ''}'') t = [pre, post]"
    by (simp only: t py_split_append [OF pre] py_split_no_sep [OF post])
  with True show ?thesis by (simp add: strip_namespace_def local_name_def post_def)
qed

lemma add_child_spec:
  assumes "parser_tag (tag c)"
  shows "map_of (add_child cfg r c) = spec_step cfg (map_of r) c"
  by (simp add: add_child_def spec_step_def Let_def strip_namespace_parser_tag [OF assms]
      update_conv' split: option.splits field.splits)

lemma foldl_add_child_spec:
  assumes "\<forall>c \<in> set cs. parser_tag (tag c)"
  shows "map_of (foldl (add_child cfg) r cs) = foldl (spec_step cfg) (map_of r) cs"
  using assms by (induction cs arbitrary: r) (simp_all add: add_child_spec)

lemma seed_attributes_snoc:
  "seed_attributes (attrs @ [(k, v)]) = AList.update k (Scalar v) (seed_attributes attrs)"
  by (simp add: seed_attributes_def)

lemma map_of_seed_attributes:
  assumes "distinct (map fst attrs)"
  shows "map_of (seed_attributes attrs) = map_option Scalar \<circ> map_of attrs"
  using assms
proof (induction attrs rule: rev_induct)
  case Nil
  then show ?case by (simp add: seed_attributes_def fun_eq_iff)
next
  case (snoc kv attrs)
  obtain k v where kv: "kv = (k, v)" by (cases kv)
  from snoc.prems kv have d: "distinct (map fst attrs)" and fresh: "k \<notin> fst ` set attrs"
    by simp_all
  from fresh have none: "map_of attrs k = None" by (simp add: map_of_eq_None_iff)
  have "map_of (attrs @ [(k, v)]) = (map_of attrs)(k \<mapsto> v)"
    using none by (auto simp: fun_eq_iff map_add_def split: option.splits)
  with snoc.IH [OF d] show ?case
    by (simp add: kv seed_attributes_snoc update_conv' fun_eq_iff)
qed

lemma foldl_spec_step_key:
  "foldl (spec_step cfg) m cs k =
     foldl (\<lambda>f v. Some (merge_value f v)) (m k)
       (map (\<lambda>c. safe_get_text cfg c []) (filter (\<lambda>c. local_name (tag c) = k) cs))"
  by (induction cs arbitrary: m) (simp_all add: spec_step_def)

lemma foldl_merge_sequence:
  "foldl (\<lambda>f v. Some (merge_value f v)) (Some (Sequence us)) vs = Some (Sequence (us @ vs))"
  by (induction vs arbitrary: us) simp_all

lemma foldl_merge_scalar:
  "foldl (\<lambda>f v. Some (merge_value f v)) (Some (Scalar a)) vs = field_of (a # vs)"
  by (cases vs) (simp_all add: foldl_merge_sequence)

lemma foldl_merge_none:
  "foldl (\<lambda>f v. Some (merge_value f v)) None vs = field_of vs"
  by (cases vs) (simp_all add: foldl_merge_scalar)

text \<open>
  C3. For an element with an attribute dictionary and children whose tags are as the
  parser writes them, the Record of \<open>element_to_dict\<close> is the one the
  specification describes: seeded with every attribute, then, child by child in
  document order and under the local name (everything up to and including the
  namespace delimiter dropped), a new name gets the scalar text, a scalar becomes a
  sequence of two, a sequence is appended to. Hence the field of a key is the list of
  the values written under it, in order. Two children \<^verbatim>\<open><tag>a</tag><tag>b</tag>\<close>
  give \<^verbatim>\<open>{"tag": ["a", "b"]}\<close>.
\<close>

theorem element_to_dict_merges_children:
  assumes "distinct (map fst (attrib e))"
    and "\<forall>c \<in> set (children e). parser_tag (tag c)"
  shows "map_of (element_to_dict cfg e) = spec_extract cfg e
       \<and> (\<forall>k. map_of (element_to_dict cfg e) k = field_of (contributions cfg e k))"
proof -
  have eq: "map_of (element_to_dict cfg e) = spec_extract cfg e"
    by (simp add: element_to_dict_def spec_extract_def foldl_add_child_spec [OF assms(2)]
        map_of_seed_attributes [OF assms(1)])
  have "spec_extract cfg e k = field_of (contributions cfg e k)" for k
    by (cases "map_of (attrib e) k")
       (simp_all add: spec_extract_def contributions_def foldl_spec_step_key
          foldl_merge_none foldl_merge_scalar)
  with eq show ?thesis by simp
qed

theorem element_to_dict_merges_children_witness:
  "element_to_dict sample_config duplicate_tags_element = [(''tag'', Sequence [''a'', ''b''])]
   \<and> map_of (element_to_dict sample_config duplicate_tags_element) ''tag'' =
       Some (Sequence [''a'', ''b''])
   \<and> map_of (element_to_dict sample_config namespaced_element) ''tag'' =
       Some (Sequence [''a'', [], ''c''])
   \<and> map_of (element_to_dict sample_config namespaced_element) ''id'' =
       Some (Sequence [''7'', ''8''])
   \<and> map_of (element_to_dict sample_config padded_text_element) ''a'' =
       Some (Scalar ''x'')"
proof -
  have d1: "distinct (map fst (attrib duplicate_tags_element))"
    and d2: "distinct (map fst (attrib namespaced_element))"
    and d3: "distinct (map fst (attrib padded_text_element))"
    by (simp_all add: duplicate_tags_element_def namespaced_element_def
        padded_text_element_def)
  have p1: "\<forall>c \<in> set (children duplicate_tags_element). parser_tag (tag c)"
    and p2: "\<forall>c \<in> set (children namespaced_element). parser_tag (tag c)"
    and p3: "\<forall>c \<in> set (children padded_text_element). parser_tag (tag c)"
    by (simp_all add: duplicate_tags_element_def namespaced_element_def
        padded_text_element_def parser_tag_def)
  have c4: "contributions sample_config padded_text_element ''a'' = [''x'']"
    by (simp add: contributions_def padded_text_element_def local_name_def
        safe_get_text_def py_strip_def py_isspace_def sample_config_def default_config_def)
  have direct: "element_to_dict sample_config duplicate_tags_element =
      [(''tag'', Sequence [''a'', ''b''])]"
    by (simp add: element_to_dict_def seed_attributes_def add_child_def Let_def
        duplicate_tags_element_def strip_namespace_def safe_get_text_def py_strip_def
        py_isspace_def sample_config_def default_config_def)
  have c1: "contributions sample_config duplicate_tags_element ''tag'' = [''a'', ''b'']"
    by (simp add: contributions_def duplicate_tags_element_def local_name_def
        safe_get_text_def py_strip_def py_isspace_def sample_config_def default_config_def)
  have c2: "contributions sample_config namespaced_element ''tag'' = [''a'', [], ''c'']"
    by (simp add: contributions_def namespaced_element_def local_name_def
        safe_get_text_def py_strip_def py_isspace_def sample_config_def default_config_def)
  have c3: "contributions sample_config namespaced_element ''id'' = [''7'', ''8'']"
    by (simp add: contributions_def namespaced_element_def local_name_def
        safe_get_text_def py_strip_def py_isspace_def sample_config_def default_config_def)
  note t1 = element_to_dict_merges_children [OF d1 p1, of sample_config, THEN conjunct2]
    and t2 = element_to_dict_merges_children [OF d2 p2, of sample_config, THEN conjunct2]
    and t3 = element_to_dict_merges_children [OF d3 p3, of sample_config, THEN conjunct2]
  from t1 [rule_format, of "''tag''"] t2 [rule_format, of "''tag''"]
    t2 [rule_format, of "''id''"] t3 [rule_format, of "''a''"] direct
  show ?thesis by (simp add: c1 c2 c3 c4)
qed

section \<open>Validation without a schema\<close>

lemma add_child_validate_schema:
  "add_child (cfg\<lparr>validate_schema := b\<rparr>) = add_child cfg"
  by (rule ext)+ (simp add: add_child_def safe_get_text_def)

lemma ingest_batch_validate_schema:
  "ingest_batch (cfg\<lparr>validate_schema := b\<rparr>) src tf = ingest_batch cfg src tf"
proof -
  have e: "element_to_dict (cfg\<lparr>validate_schema := b\<rparr>) = element_to_dict cfg"
    by (rule ext) (simp add: element_to_dict_def add_child_validate_schema)
  have "apply_transform (cfg\<lparr>validate_schema := b\<rparr>) tf = apply_transform cfg tf"
    by (rule ext) (simp add: apply_transform_def e split: option.splits)
  moreover have "stream_records (cfg\<lparr>validate_schema := b\<rparr>) src = stream_records cfg src"
    by (cases src) (simp_all add: stream_records_def stream_body_def)
  ultimately show ?thesis by (simp add: ingest_batch_def)
qed

text \<open>
  C10. With \<open>validate_schema\<close> set and no \<open>schema_path\<close>, \<open>validate_xml\<close>
  returns true whatever the validating library would say about the document, and
  \<open>ingest_to_dataframe\<close> ingests as it does with validation switched off.
\<close>

theorem validation_without_schema_is_skipped:
  assumes "validate_schema cfg" and "schema_path cfg = None"
  shows "validate_xml cfg lx = Inr True
       \<and> ingest_to_dataframe cfg lx src tf = collect_batches (ingest_batch cfg src tf)
       \<and> ingest_to_dataframe cfg lx src tf =
           ingest_to_dataframe (cfg\<lparr>validate_schema := False\<rparr>) lx src tf"
  using assms
  by (simp add: validate_xml_def truthy_def ingest_to_dataframe_def
      ingest_batch_validate_schema)

lemma collect_sample:
  assumes "batch_size cfg = 2" and "record_tag cfg = ''record''"
  shows "collect_batches (ingest_batch cfg (Document sample_document) None) =
     Inr (map (element_to_dict cfg)
       [sample_record ''1'', sample_record ''2'', sample_record ''3'',
        sample_record ''4'', sample_record ''5''])"
proof -
  have B: "1 \<le> batch_size cfg" using assms(1) by simp
  have s: "fst (stream_records cfg (Document sample_document)) =
     [sample_record ''1'', sample_record ''2'', sample_record ''3'',
      sample_record ''4'', sample_record ''5'']"
    by (simp add: stream_records_def stream_body_def assms(2)
      sample_document_def sample_record_def Let_def)
  have "\<forall>e \<in> set (fst (stream_records cfg (Document sample_document))).
          apply_transform cfg None e = Inr (element_to_dict cfg e)"
    by (simp add: apply_transform_def)
  from ingest_batch_document [OF B this] s show ?thesis
    by (auto simp: collect_batches_def)
qed

theorem validation_without_schema_is_skipped_witness:
  "validate_schema schemaless_config \<and> schema_path schemaless_config = None
   \<and> validate_xml schemaless_config LxmlInvalid = Inr True
   \<and> ingest_to_dataframe schemaless_config LxmlInvalid (Document sample_document) None =
       Inr (map (element_to_dict schemaless_config)
         [sample_record ''1'', sample_record ''2'', sample_record ''3'',
          sample_record ''4'', sample_record ''5''])"
proof -
  have on: "validate_schema schemaless_config"
    and np: "schema_path schemaless_config = None"
    by (simp_all add: schemaless_config_def sample_config_def default_config_def)
  have c: "batch_size schemaless_config = 2" "record_tag schemaless_config = ''record''"
    by (simp_all add: schemaless_config_def sample_config_def default_config_def)
  from validation_without_schema_is_skipped [OF on np, of LxmlInvalid
      "Document sample_document" None] on np collect_sample [OF c]
  show ?thesis by simp
qed

end
